theory Spec2Isabelle
  imports Main "HOL-Library.Word"
begin

unbundle bit_operations_syntax

section \<open>Data model of backend/main.go\<close>

text \<open>
  Pointers are modelled as addresses. A \<^verbatim>\<open>*ssh.ServerConn\<close> and an \<^verbatim>\<open>ssh.Channel\<close> are
  opaque identities owned by the SSH library; a \<^verbatim>\<open>*target\<close> and a \<^verbatim>\<open>*tunnelRef\<close> are
  indices into the heap of objects allocated so far (an allocation appends, so an
  address is never reused and two allocations never compare equal, as in Go).
\<close>

type_synonym byte = "8 word"
type_synonym serverConn = nat
type_synonym channel = nat
type_synonym targetPtr = nat
type_synonym tunnelRefPtr = nat

record target =
  KeyID :: string
  Remote :: serverConn
  Host :: string
  Port :: "32 word"

record tunnelRef =
  Endpoint :: string
  Target :: targetPtr

text \<open>
  \<^verbatim>\<open>sshConnection\<close>; its \<^verbatim>\<open>KeyID\<close> field is named \<open>connKeyID\<close> here, since a record field
  name can be declared only once. \<^verbatim>\<open>Sessions\<close> and \<^verbatim>\<open>TunnelRefs\<close> are Go maps to
  \<^verbatim>\<open>void\<close>, that is sets of keys; \<^verbatim>\<open>TunnelRefs\<close> is keyed by the pointer.
\<close>

record sshConnection =
  connKeyID :: string
  Sessions :: "channel set"
  TunnelRefs :: "tunnelRefPtr set"
  lastPort :: "16 word"

text \<open>What the registry operations do to the outside world, in program order.\<close>

datatype effect =
    ExitStatus channel byte
  | ChannelClose channel
  | SpawnConnClose serverConn
  | Message string
  | Reply bool "(32 word) option"

text \<open>
  \<^verbatim>\<open>server\<close>: the two maps of the struct (the mutex is not modelled: every operation below
  is one critical section), together with the heap of \<^verbatim>\<open>target\<close> and \<^verbatim>\<open>tunnelRef\<close>
  objects and the trace of effects.
\<close>

record server =
  conns :: "serverConn \<rightharpoonup> sshConnection"
  endpoints :: "string \<rightharpoonup> targetPtr set"
  targetHeap :: "target list"
  tunnelRefHeap :: "tunnelRef list"
  trace :: "effect list"

text \<open>A Go panic (here always a nil pointer dereference) ends the run.\<close>

datatype error = NilDereference

definition newServer :: server where
  "newServer = \<lparr>conns = Map.empty, endpoints = Map.empty, targetHeap = [],
                 tunnelRefHeap = [], trace = []\<rparr>"

definition emit :: "effect list \<Rightarrow> server \<Rightarrow> server" where
  "emit es s = s\<lparr>trace := trace s @ es\<rparr>"

text \<open>\<^verbatim>\<open>&target{...}\<close>: allocate a new object and return its address.\<close>

definition newTarget :: "target \<Rightarrow> server \<Rightarrow> targetPtr \<times> server" where
  "newTarget tv s = (length (targetHeap s), s\<lparr>targetHeap := targetHeap s @ [tv]\<rparr>)"

text \<open>\<^verbatim>\<open>&tunnelRef{...}\<close>: likewise.\<close>

definition newTunnelRef :: "tunnelRef \<Rightarrow> server \<Rightarrow> tunnelRefPtr \<times> server" where
  "newTunnelRef rv s = (length (tunnelRefHeap s), s\<lparr>tunnelRefHeap := tunnelRefHeap s @ [rv]\<rparr>)"

text \<open>Dereference; an address that was never allocated behaves as nil.\<close>

definition derefTarget :: "server \<Rightarrow> targetPtr \<Rightarrow> target option" where
  "derefTarget s t = (if t < length (targetHeap s) then Some (targetHeap s ! t) else None)"

definition derefTunnelRef :: "server \<Rightarrow> tunnelRefPtr \<Rightarrow> tunnelRef option" where
  "derefTunnelRef s r = (if r < length (tunnelRefHeap s) then Some (tunnelRefHeap s ! r) else None)"

section \<open>Registry operations\<close>

definition newConnection :: "string \<Rightarrow> channel \<Rightarrow> sshConnection" where
  "newConnection keyID ch =
     \<lparr>connKeyID = keyID, Sessions = {ch}, TunnelRefs = {}, lastPort = 0\<rparr>"

definition startSession :: "string \<Rightarrow> serverConn \<Rightarrow> channel \<Rightarrow> server \<Rightarrow> server" where
  "startSession keyID conn ch s =
     (case conns s conn of
        None \<Rightarrow> s\<lparr>conns := (conns s)(conn \<mapsto> newConnection keyID ch)\<rparr>
      | Some c \<Rightarrow> s\<lparr>conns := (conns s)(conn \<mapsto> c\<lparr>Sessions := insert ch (Sessions c)\<rparr>)\<rparr>)"

text \<open>\<^verbatim>\<open>s.conns[conn].lastPort++\<close> panics when the connection has no record.\<close>

definition newPort :: "serverConn \<Rightarrow> server \<Rightarrow> error + (16 word \<times> server)" where
  "newPort conn s =
     (case conns s conn of
        None \<Rightarrow> Inl NilDereference
      | Some c \<Rightarrow>
          let c' = c\<lparr>lastPort := lastPort c + 1\<rparr>
          in Inr (lastPort c', s\<lparr>conns := (conns s)(conn \<mapsto> c')\<rparr>))"

text \<open>
  \<^verbatim>\<open>insertEndpointTarget\<close>. The log line reads \<^verbatim>\<open>t.Remote\<close> and \<^verbatim>\<open>t.KeyID\<close> first. The bucket
  is updated before \<^verbatim>\<open>s.conns[t.Remote]\<close> is looked up; a missing record makes
  \<^verbatim>\<open>sConn.TunnelRefs\<close> a nil dereference. The TunnelRef stored is a new object.
\<close>

definition insertEndpointTarget :: "string \<Rightarrow> targetPtr \<Rightarrow> server \<Rightarrow> error + server" where
  "insertEndpointTarget endpoint t s =
     (case derefTarget s t of
        None \<Rightarrow> Inl NilDereference
      | Some tv \<Rightarrow>
          let s1 = (case endpoints s endpoint of
                      Some m \<Rightarrow> s\<lparr>endpoints := (endpoints s)(endpoint \<mapsto> insert t m)\<rparr>
                    | None \<Rightarrow> s\<lparr>endpoints := (endpoints s)(endpoint \<mapsto> {t})\<rparr>)
          in (case conns s1 (Remote tv) of
                None \<Rightarrow> Inl NilDereference
              | Some sConn \<Rightarrow>
                  let (r, s2) = newTunnelRef \<lparr>Endpoint = endpoint, Target = t\<rparr> s1
                  in Inr (s2\<lparr>conns := (conns s2)(Remote tv \<mapsto>
                            sConn\<lparr>TunnelRefs := insert r (TunnelRefs sConn)\<rparr>)\<rparr>)))"

text \<open>
  \<^verbatim>\<open>removeEndpointTarget\<close>. Returns early when the hostname has no bucket. The key given to
  \<^verbatim>\<open>delete(sConn.TunnelRefs, &tunnelRef{...})\<close> is the address of a new object.
\<close>

definition removeEndpointTarget :: "string \<Rightarrow> targetPtr \<Rightarrow> server \<Rightarrow> error + server" where
  "removeEndpointTarget endpoint t s =
     (case derefTarget s t of
        None \<Rightarrow> Inl NilDereference
      | Some tv \<Rightarrow>
          (case endpoints s endpoint of
             None \<Rightarrow> Inr s
           | Some m \<Rightarrow>
               let m' = m - {t};
                   s1 = (if m' = {} then s\<lparr>endpoints := (endpoints s)(endpoint := None)\<rparr>
                         else s\<lparr>endpoints := (endpoints s)(endpoint \<mapsto> m')\<rparr>)
               in (case conns s1 (Remote tv) of
                     None \<Rightarrow> Inl NilDereference
                   | Some sConn \<Rightarrow>
                       let (r, s2) = newTunnelRef \<lparr>Endpoint = endpoint, Target = t\<rparr> s1
                       in Inr (s2\<lparr>conns := (conns s2)(Remote tv \<mapsto>
                                 sConn\<lparr>TunnelRefs := TunnelRefs sConn - {r}\<rparr>)\<rparr>))))"

text \<open>
  \<^verbatim>\<open>endSession\<close>: exit-status 0 and the channel close come before the lock is taken. The
  result of \<^verbatim>\<open>ch.Close()\<close> is only logged.
\<close>

definition endSession :: "serverConn \<Rightarrow> channel \<Rightarrow> server \<Rightarrow> server" where
  "endSession conn ch s =
     (let s1 = emit [ExitStatus ch 0, ChannelClose ch] s
      in case conns s1 conn of
           None \<Rightarrow> s1
         | Some c \<Rightarrow>
             let c' = c\<lparr>Sessions := Sessions c - {ch}\<rparr>;
                 s2 = s1\<lparr>conns := (conns s1)(conn \<mapsto> c')\<rparr>
             in if Sessions c' = {} then emit [SpawnConnClose conn] s2 else s2)"

text \<open>
  The loop of \<^verbatim>\<open>closeConnection\<close>: \<open>order\<close> is the sequence in which \<^verbatim>\<open>range\<close> yields the
  keys of \<^verbatim>\<open>sConn.TunnelRefs\<close>, which Go leaves unspecified.
\<close>

fun removeTunnelRefs :: "tunnelRefPtr list \<Rightarrow> server \<Rightarrow> error + server" where
  "removeTunnelRefs [] s = Inr s"
| "removeTunnelRefs (er # ers) s =
     (case derefTunnelRef s er of
        None \<Rightarrow> Inl NilDereference
      | Some rv \<Rightarrow>
          (case removeEndpointTarget (Endpoint rv) (Target rv) s of
             Inl e \<Rightarrow> Inl e
           | Inr s' \<Rightarrow> removeTunnelRefs ers s'))"

definition closeConnection :: "tunnelRefPtr list \<Rightarrow> serverConn \<Rightarrow> server \<Rightarrow> error + server" where
  "closeConnection order conn s =
     (case conns s conn of
        None \<Rightarrow> Inr s
      | Some sConn \<Rightarrow>
          (case removeTunnelRefs order s of
             Inl e \<Rightarrow> Inl e
           | Inr s1 \<Rightarrow> Inr (emit [SpawnConnClose conn] (s1\<lparr>conns := (conns s1)(conn := None)\<rparr>))))"

section \<open>Endpoint Namer\<close>

text \<open>\<^verbatim>\<open>strconv.Itoa\<close> and the \<^verbatim>\<open>%d\<close> verb: decimal digits, most significant first.\<close>

fun decimal :: "nat \<Rightarrow> string" where
  "decimal n =
     (if n < 10 then [''0123456789'' ! n]
      else decimal (n div 10) @ [''0123456789'' ! (n mod 10)])"

declare decimal.simps [simp del]

definition Itoa :: "int \<Rightarrow> string" where
  "Itoa i = (if i < 0 then CHR ''-'' # decimal (nat (- i)) else decimal (nat i))"

text \<open>\<^verbatim>\<open>int(port)\<close> for a \<^verbatim>\<open>uint32\<close>, with Go's 64-bit \<^verbatim>\<open>int\<close>.\<close>

definition intOfUint32 :: "32 word \<Rightarrow> int" where
  "intOfUint32 p = sint (ucast p :: 64 word)"

text \<open>\<^verbatim>\<open>%d\<close> applied to a \<^verbatim>\<open>uint32\<close>.\<close>

definition fmtD :: "32 word \<Rightarrow> string" where
  "fmtD p = decimal (unat p)"

text \<open>\<^verbatim>\<open>[]byte(str)\<close>.\<close>

definition bytesOfString :: "string \<Rightarrow> byte list" where
  "bytesOfString str = map of_char str"

text \<open>
  \<^verbatim>\<open>encoding/base32\<close> of the Go library, as its \<^verbatim>\<open>Encode\<close> computes it: five source bytes
  give eight 5-bit values, each the index of a character of the alphabet; a final group
  of 1, 2, 3 or 4 bytes gives 2, 4, 5 or 7 characters and, with \<^verbatim>\<open>NoPadding\<close>, nothing more.
\<close>

definition encodeQuantum :: "byte \<Rightarrow> byte \<Rightarrow> byte \<Rightarrow> byte \<Rightarrow> byte \<Rightarrow> byte list" where
  "encodeQuantum s0 s1 s2 s3 s4 =
     [drop_bit 3 s0,
      (push_bit 2 s0 AND 0x1F) OR (drop_bit 6 s1 AND 0x1F),
      drop_bit 1 s1 AND 0x1F,
      (push_bit 4 s1 AND 0x1F) OR (drop_bit 4 s2 AND 0x1F),
      (push_bit 1 s2 AND 0x1F) OR drop_bit 7 s3,
      drop_bit 2 s3 AND 0x1F,
      (push_bit 3 s3 AND 0x1F) OR drop_bit 5 s4,
      s4 AND 0x1F]"

definition encodeChars :: "string \<Rightarrow> byte list \<Rightarrow> string" where
  "encodeChars enc b = map (\<lambda>v. enc ! unat (v AND 31)) b"

fun EncodeToString :: "string \<Rightarrow> byte list \<Rightarrow> string" where
  "EncodeToString enc (s0 # s1 # s2 # s3 # s4 # src) =
     encodeChars enc (encodeQuantum s0 s1 s2 s3 s4) @ EncodeToString enc src"
| "EncodeToString enc [s0, s1, s2, s3] = encodeChars enc (take 7 (encodeQuantum s0 s1 s2 s3 0))"
| "EncodeToString enc [s0, s1, s2] = encodeChars enc (take 5 (encodeQuantum s0 s1 s2 0 0))"
| "EncodeToString enc [s0, s1] = encodeChars enc (take 4 (encodeQuantum s0 s1 0 0 0))"
| "EncodeToString enc [s0] = encodeChars enc (take 2 (encodeQuantum s0 0 0 0 0))"
| "EncodeToString enc [] = []"

definition b32alphabet :: string where
  "b32alphabet = ''abcdefghijklmnopqrstuvwxyz234567''"

definition b32encoder :: "byte list \<Rightarrow> string" where
  "b32encoder src = EncodeToString b32alphabet src"

text \<open>
  \<^verbatim>\<open>hasher.Sum(nil)\<close>: the 32 bytes of a SHA-256 digest, most significant first. The hash
  function itself belongs to \<^verbatim>\<open>crypto/sha256\<close> and is a parameter \<open>sha256\<close> of the model.
\<close>

definition digestBytes :: "256 word \<Rightarrow> byte list" where
  "digestBytes d = map (\<lambda>i. ucast (drop_bit (8 * (31 - i)) d)) [0..<32]"

text \<open>
  \<^verbatim>\<open>endpointURLs\<close>. The three \<^verbatim>\<open>hasher.Write\<close> calls hash the concatenation of their
  arguments. The flag \<^verbatim>\<open>*domain\<close> is the parameter \<open>domain\<close>.
\<close>

definition endpointURLs ::
  "(byte list \<Rightarrow> 256 word) \<Rightarrow> string \<Rightarrow> string \<Rightarrow> byte list \<Rightarrow> 32 word \<Rightarrow> bool \<Rightarrow> bool
     \<Rightarrow> string list" where
  "endpointURLs sha256 domain user key port githubEnabled gitlabEnabled =
     (let b32 = b32encoder (take 16 (digestBytes
                  (sha256 (key @ [0] @ bytesOfString (Itoa (intOfUint32 port))))));
          result0 = [b32 @ ''.'' @ domain];
          result1 = (if githubEnabled then
                       (if port = 1 then result0 @ [user @ ''.gh.'' @ domain]
                        else result0 @ [user @ ''--'' @ fmtD port @ ''.gh.'' @ domain])
                     else result0);
          result2 = (if gitlabEnabled then result1 @ [user @ ''-'' @ fmtD port @ ''.gl.'' @ domain]
                     else result1)
      in result2)"

section \<open>Identity Verifier\<close>

text \<open>\<^verbatim>\<open>strings.Split(s, sep)\<close> for a separator of one character.\<close>

fun Split :: "string \<Rightarrow> char \<Rightarrow> string list" where
  "Split [] sep = [[]]"
| "Split (c # cs) sep =
     (if c = sep then [] # Split cs sep
      else (case Split cs sep of
              [] \<Rightarrow> [[c]]
            | w # ws \<Rightarrow> (c # w) # ws))"

text \<open>The text before and after the first separator, if there is one.\<close>

fun cut :: "string \<Rightarrow> char \<Rightarrow> (string \<times> string) option" where
  "cut [] sep = None"
| "cut (c # cs) sep =
     (if c = sep then Some ([], cs)
      else (case cut cs sep of
              None \<Rightarrow> None
            | Some (before, after) \<Rightarrow> Some (c # before, after)))"

text \<open>\<^verbatim>\<open>strings.SplitN(s, sep, n)\<close> for \<open>n \<ge> 0\<close>: at most \<open>n\<close> parts, the last one unsplit.\<close>

fun SplitN :: "string \<Rightarrow> char \<Rightarrow> nat \<Rightarrow> string list" where
  "SplitN str sep 0 = []"
| "SplitN str sep (Suc 0) = [str]"
| "SplitN str sep (Suc (Suc n)) =
     (case cut str sep of
        None \<Rightarrow> [str]
      | Some (before, after) \<Rightarrow> before # SplitN after sep (Suc n))"

text \<open>
  What the HTTP client does for a URL: \<^verbatim>\<open>http.NewRequestWithContext\<close> fails; or
  \<^verbatim>\<open>http.DefaultClient.Do\<close> fails and returns a nil response; or there is a response
  whose body \<^verbatim>\<open>io.ReadAll\<close> reads fully or fails to read.
\<close>

datatype httpOutcome =
    NewRequestError
  | DoError
  | BodyReadError
  | Body string

text \<open>The loop over the lines of the body.\<close>

fun matchLines :: "string list \<Rightarrow> string \<Rightarrow> bool" where
  "matchLines [] key = False"
| "matchLines (line # lines) key =
     (let parts = SplitN line CHR '' '' 3
      in if length parts < 2 then matchLines lines key
         else if parts ! 1 = key then True
         else matchLines lines key)"

text \<open>
  \<^verbatim>\<open>keyMatchesAccount\<close>. Both \<^verbatim>\<open>if err != nil\<close> tests come before \<^verbatim>\<open>Do\<close>; the error of
  \<^verbatim>\<open>Do\<close> is overwritten by that of \<^verbatim>\<open>io.ReadAll(response.Body)\<close>, which dereferences the
  response.
\<close>

definition keyMatchesAccount ::
  "(string \<Rightarrow> httpOutcome) \<Rightarrow> string \<Rightarrow> string \<Rightarrow> string \<Rightarrow> error + bool" where
  "keyMatchesAccount http domain user key =
     (case http (''https://'' @ domain @ ''/'' @ user @ ''.keys'') of
        NewRequestError \<Rightarrow> Inr False
      | DoError \<Rightarrow> Inl NilDereference
      | BodyReadError \<Rightarrow> Inr False
      | Body body \<Rightarrow> Inr (matchLines (Split body (CHR 0x0A)) key))"

section \<open>Global requests of the main loop\<close>

text \<open>
  The variables of \<^verbatim>\<open>serveSSHConnection\<close> that the request handlers read: \<^verbatim>\<open>conn.User()\<close>,
  \<^verbatim>\<open>key.Marshal()\<close>, \<^verbatim>\<open>keyID\<close>, \<^verbatim>\<open>conn\<close>, \<^verbatim>\<open>githubEnabled\<close> and \<^verbatim>\<open>gitlabEnabled\<close>.
\<close>

record sshClient =
  User :: string
  PublicKey :: "byte list"
  ClientKeyID :: string
  Conn :: serverConn
  GithubEnabled :: bool
  GitlabEnabled :: bool

text \<open>\<^verbatim>\<open>remoteForwardRequest\<close> and \<^verbatim>\<open>remoteForwardCancelRequest\<close> have the same fields.\<close>

record remoteForwardRequest =
  BindAddr :: string
  BindPort :: "32 word"

text \<open>\<^verbatim>\<open>strings.Join\<close>.\<close>

fun Join :: "string list \<Rightarrow> string \<Rightarrow> string" where
  "Join [] sep = []"
| "Join [x] sep = x"
| "Join (x # y # ys) sep = x @ sep @ Join (y # ys) sep"

text \<open>
  The two loops under the lock: each iteration evaluates \<^verbatim>\<open>&target{...}\<close> anew, so each
  endpoint gets a target object of its own, with the same field values.
\<close>

fun insertTargets :: "string list \<Rightarrow> target \<Rightarrow> server \<Rightarrow> error + server" where
  "insertTargets [] tv s = Inr s"
| "insertTargets (endpoint # rest) tv s =
     (let (t, s1) = newTarget tv s
      in case insertEndpointTarget endpoint t s1 of
           Inl e \<Rightarrow> Inl e
         | Inr s2 \<Rightarrow> insertTargets rest tv s2)"

fun removeTargets :: "string list \<Rightarrow> target \<Rightarrow> server \<Rightarrow> error + server" where
  "removeTargets [] tv s = Inr s"
| "removeTargets (endpoint # rest) tv s =
     (let (t, s1) = newTarget tv s
      in case removeEndpointTarget endpoint t s1 of
           Inl e \<Rightarrow> Inl e
         | Inr s2 \<Rightarrow> removeTargets rest tv s2)"

text \<open>
  The \<^verbatim>\<open>tcpip-forward\<close> case. \<open>payload\<close> is \<open>None\<close> when \<^verbatim>\<open>ssh.Unmarshal\<close> fails. The
  counter \<^verbatim>\<open>requested\<close> is local to the connection's goroutines and left out. The send
  on the unbuffered channel \<^verbatim>\<open>msgs\<close> blocks until the goroutine that drains it runs,
  which is after the connection's first \<^verbatim>\<open>startSession\<close>; the model does not wait. So for
  a connection without a record the model goes on to the insert and yields the nil
  dereference, where the program waits for a session and then inserts: every registry
  state of the program is that of a model run with \<open>StartSession\<close> placed first.
\<close>

definition tcpipForward ::
  "(byte list \<Rightarrow> 256 word) \<Rightarrow> string \<Rightarrow> sshClient \<Rightarrow> bool \<Rightarrow> remoteForwardRequest option
     \<Rightarrow> server \<Rightarrow> error + server" where
  "tcpipForward sha256 domain cl wantReply payload s =
     (case payload of
        None \<Rightarrow> Inr (if wantReply then emit [Reply False None] s else s)
      | Some p \<Rightarrow>
          let eps = endpointURLs sha256 domain (User cl) (PublicKey cl) (BindPort p)
                      (GithubEnabled cl) (GitlabEnabled cl);
              urls = map (\<lambda>endpoint. ''https://'' @ endpoint @ ''/'') eps;
              s1 = emit [Message (fmtD (BindPort p) @ '': '' @ Join urls '', '')] s
          in (case insertTargets eps
                     \<lparr>KeyID = ClientKeyID cl, Remote = Conn cl, Host = BindAddr p,
                      Port = BindPort p\<rparr> s1 of
                Inl e \<Rightarrow> Inl e
              | Inr s2 \<Rightarrow> Inr (if wantReply then emit [Reply True (Some 443)] s2 else s2)))"

text \<open>The \<^verbatim>\<open>cancel-tcpip-forward\<close> case.\<close>

definition cancelTcpipForward ::
  "(byte list \<Rightarrow> 256 word) \<Rightarrow> string \<Rightarrow> sshClient \<Rightarrow> bool \<Rightarrow> remoteForwardRequest option
     \<Rightarrow> server \<Rightarrow> error + server" where
  "cancelTcpipForward sha256 domain cl wantReply payload s =
     (case payload of
        None \<Rightarrow> Inr (if wantReply then emit [Reply False None] s else s)
      | Some p \<Rightarrow>
          let eps = endpointURLs sha256 domain (User cl) (PublicKey cl) (BindPort p)
                      (GithubEnabled cl) (GitlabEnabled cl)
          in (case removeTargets eps
                     \<lparr>KeyID = ClientKeyID cl, Remote = Conn cl, Host = BindAddr p,
                      Port = BindPort p\<rparr> s of
                Inl e \<Rightarrow> Inl e
              | Inr s2 \<Rightarrow> Inr (if wantReply then emit [Reply True (Some 443)] s2 else s2)))"

section \<open>Runs of the registry\<close>

text \<open>
  The operations that change the registry, as the program performs them one critical
  section after another. \<open>CloseConnection\<close> carries the order in which the range loop
  visits the TunnelRefs.
\<close>

datatype operation =
    StartSession string serverConn channel
  | EndSession serverConn channel
  | NewPort serverConn
  | NewTarget target
  | InsertEndpointTarget string targetPtr
  | RemoveEndpointTarget string targetPtr
  | CloseConnection serverConn "tunnelRefPtr list"
  | TcpipForward sshClient bool "remoteForwardRequest option"
  | CancelTcpipForward sshClient bool "remoteForwardRequest option"

definition rangeOrder :: "tunnelRefPtr list \<Rightarrow> tunnelRefPtr set \<Rightarrow> bool" where
  "rangeOrder order keys = (distinct order \<and> set order = keys)"

definition returned :: "error + server \<Rightarrow> server option" where
  "returned res = (case res of Inl e \<Rightarrow> None | Inr s \<Rightarrow> Some s)"

text \<open>
  One operation; \<open>None\<close> when it panics, or when the order given to \<open>CloseConnection\<close> is
  not an enumeration of the connection's TunnelRefs.
\<close>

fun exec :: "(byte list \<Rightarrow> 256 word) \<Rightarrow> string \<Rightarrow> operation \<Rightarrow> server \<Rightarrow> server option" where
  "exec sha256 domain (StartSession keyID conn ch) s = Some (startSession keyID conn ch s)"
| "exec sha256 domain (EndSession conn ch) s = Some (endSession conn ch s)"
| "exec sha256 domain (NewPort conn) s =
     (case newPort conn s of Inl e \<Rightarrow> None | Inr (p, s') \<Rightarrow> Some s')"
| "exec sha256 domain (NewTarget tv) s = Some (snd (newTarget tv s))"
| "exec sha256 domain (InsertEndpointTarget endpoint t) s =
     returned (insertEndpointTarget endpoint t s)"
| "exec sha256 domain (RemoveEndpointTarget endpoint t) s =
     returned (removeEndpointTarget endpoint t s)"
| "exec sha256 domain (CloseConnection conn order) s =
     (case conns s conn of
        None \<Rightarrow> returned (closeConnection order conn s)
      | Some c \<Rightarrow>
          if rangeOrder order (TunnelRefs c) then returned (closeConnection order conn s)
          else None)"
| "exec sha256 domain (TcpipForward cl wantReply payload) s =
     returned (tcpipForward sha256 domain cl wantReply payload s)"
| "exec sha256 domain (CancelTcpipForward cl wantReply payload) s =
     returned (cancelTcpipForward sha256 domain cl wantReply payload s)"

fun run :: "(byte list \<Rightarrow> 256 word) \<Rightarrow> string \<Rightarrow> operation list \<Rightarrow> server \<Rightarrow> server option" where
  "run sha256 domain [] s = Some s"
| "run sha256 domain (op # ops) s =
     (case exec sha256 domain op s of
        None \<Rightarrow> None
      | Some s' \<Rightarrow> run sha256 domain ops s')"

text \<open>
  \<^verbatim>\<open>s.endpoints[e]\<close> as Go reads it: a missing key gives the nil map, which has no
  elements.
\<close>

definition bucket :: "server \<Rightarrow> string \<Rightarrow> targetPtr set" where
  "bucket s e = (case endpoints s e of None \<Rightarrow> {} | Some m \<Rightarrow> m)"

definition noEmptyBuckets :: "server \<Rightarrow> bool" where
  "noEmptyBuckets s = (\<forall>e. endpoints s e \<noteq> Some {})"

text \<open>
  Well-formed registry states. Every target in a bucket is an allocated object whose
  owning connection has a record holding a TunnelRef for that hostname and target; every
  TunnelRef of a record is an allocated object and points to an allocated target owned by
  that connection.
\<close>

definition targetsHaveRefs :: "server \<Rightarrow> bool" where
  "targetsHaveRefs s =
     (\<forall>e t. t \<in> bucket s e \<longrightarrow>
        (\<exists>tv c r. derefTarget s t = Some tv \<and> conns s (Remote tv) = Some c \<and>
           r \<in> TunnelRefs c \<and> derefTunnelRef s r = Some \<lparr>Endpoint = e, Target = t\<rparr>))"

definition refsWellFormed :: "server \<Rightarrow> bool" where
  "refsWellFormed s =
     (\<forall>conn c r. conns s conn = Some c \<longrightarrow> r \<in> TunnelRefs c \<longrightarrow>
        (\<exists>rv tv. derefTunnelRef s r = Some rv \<and> derefTarget s (Target rv) = Some tv \<and>
           Remote tv = conn))"

definition wellFormed :: "server \<Rightarrow> bool" where
  "wellFormed s = (noEmptyBuckets s \<and> targetsHaveRefs s \<and> refsWellFormed s)"

text \<open>\<^verbatim>\<open>insertEndpointTarget\<close> followed by \<^verbatim>\<open>removeEndpointTarget\<close> with the same arguments.\<close>

definition insertThenRemove :: "string \<Rightarrow> targetPtr \<Rightarrow> server \<Rightarrow> error + server" where
  "insertThenRemove e t s =
     (case insertEndpointTarget e t s of
        Inl x \<Rightarrow> Inl x
      | Inr s1 \<Rightarrow> removeEndpointTarget e t s1)"

text \<open>
  A small scenario: one connection (address 1, key \<open>K\<close>, user \<open>alice\<close>, no vanity
  names) with one session, and a forward of port 7.
\<close>

definition exampleTarget :: target where
  "exampleTarget = \<lparr>KeyID = ''K'', Remote = 1, Host = ''localhost'', Port = 7\<rparr>"

definition oneTarget :: server where
  "oneTarget = snd (newTarget exampleTarget (startSession ''K'' 1 1 newServer))"

definition exampleClient :: "byte list \<Rightarrow> sshClient" where
  "exampleClient key =
     \<lparr>User = ''alice'', PublicKey = key, ClientKeyID = ''K'', Conn = 1,
      GithubEnabled = False, GitlabEnabled = False\<rparr>"

definition forward7 :: "remoteForwardRequest option" where
  "forward7 = Some \<lparr>BindAddr = ''localhost'', BindPort = 7\<rparr>"

text \<open>
  A second scenario: two connections (addresses 1 and 2) with one target each; both
  targets serve the hostname \<open>h\<close>, the first also \<open>g\<close>.
\<close>

definition otherTarget :: target where
  "otherTarget = \<lparr>KeyID = ''L'', Remote = 2, Host = ''localhost'', Port = 7\<rparr>"

definition exampleOps :: "operation list" where
  "exampleOps =
     [StartSession ''K'' 1 1, StartSession ''L'' 2 2, NewTarget exampleTarget, NewTarget otherTarget,
      InsertEndpointTarget ''h'' 0, InsertEndpointTarget ''h'' 1, InsertEndpointTarget ''g'' 0]"

definition exampleState :: server where
  "exampleState =
     \<lparr>conns = [1 \<mapsto> \<lparr>connKeyID = ''K'', Sessions = {1}, TunnelRefs = {0, 2}, lastPort = 0\<rparr>,
               2 \<mapsto> \<lparr>connKeyID = ''L'', Sessions = {2}, TunnelRefs = {1}, lastPort = 0\<rparr>],
      endpoints = [''h'' \<mapsto> {0, 1}, ''g'' \<mapsto> {0}],
      targetHeap = [exampleTarget, otherTarget],
      tunnelRefHeap = [\<lparr>Endpoint = ''h'', Target = 0\<rparr>, \<lparr>Endpoint = ''h'', Target = 1\<rparr>,
                       \<lparr>Endpoint = ''g'', Target = 0\<rparr>],
      trace = []\<rparr>"

section \<open>Sessions\<close>

text \<open>
  C10. For a connection that already has a record, \<^verbatim>\<open>startSession\<close> only adds the channel
  to that record's session set: the record's KeyID, TunnelRefs and lastPort, the Endpoint
  index and the record of every other connection stay as they were.
\<close>

theorem startSession_existing_frame:
  assumes "conns s conn = Some c"
  shows "conns (startSession keyID conn ch s) conn = Some (c\<lparr>Sessions := insert ch (Sessions c)\<rparr>)
       \<and> (\<forall>other. other \<noteq> conn \<longrightarrow> conns (startSession keyID conn ch s) other = conns s other)
       \<and> endpoints (startSession keyID conn ch s) = endpoints s
       \<and> targetHeap (startSession keyID conn ch s) = targetHeap s
       \<and> tunnelRefHeap (startSession keyID conn ch s) = tunnelRefHeap s
       \<and> trace (startSession keyID conn ch s) = trace s"
  using assms by (simp add: startSession_def)

theorem startSession_existing_frame_witness:
  "conns (startSession ''k2'' 5 9 (startSession ''k1'' 5 8 newServer)) 5
     = Some \<lparr>connKeyID = ''k1'', Sessions = {9, 8}, TunnelRefs = {}, lastPort = 0\<rparr>
   \<and> endpoints (startSession ''k2'' 5 9 (startSession ''k1'' 5 8 newServer)) = Map.empty"
proof -
  have h: "conns (startSession ''k1'' 5 8 newServer) 5 = Some (newConnection ''k1'' 8)"
    by (simp add: startSession_def newServer_def)
  show ?thesis
    using startSession_existing_frame [OF h, of "''k2''" 9]
    by (simp add: newConnection_def startSession_def newServer_def)
qed

text \<open>
  C9. For a connection with no record in the Connection index, \<^verbatim>\<open>endSession\<close> reports
  exit-status 0 on the channel and closes it, and nothing else: both indices (and the
  heap) are unchanged, no record is created, and no close of the SSH connection is
  scheduled. The function is total, so it does not panic.
\<close>

theorem endSession_unknown_conn:
  assumes "conns s conn = None"
  shows "conns (endSession conn ch s) = conns s
       \<and> endpoints (endSession conn ch s) = endpoints s
       \<and> targetHeap (endSession conn ch s) = targetHeap s
       \<and> tunnelRefHeap (endSession conn ch s) = tunnelRefHeap s
       \<and> trace (endSession conn ch s) = trace s @ [ExitStatus ch 0, ChannelClose ch]"
  using assms by (simp add: endSession_def emit_def)

theorem endSession_unknown_conn_witness:
  "conns (endSession 5 8 newServer) 5 = None
   \<and> trace (endSession 5 8 newServer) = [ExitStatus 8 0, ChannelClose 8]"
proof -
  have h: "conns newServer 5 = None"
    by (simp add: newServer_def)
  show ?thesis
    using endSession_unknown_conn [OF h, of 8] h
    by (simp add: newServer_def)
qed


section \<open>Endpoint names\<close>

lemma intOfUint32_eq: "intOfUint32 p = int (unat p)"
proof -
  have up: "uint (ucast p :: 64 word) = uint p"
    by (simp add: uint_up_ucast is_up)
  have lt: "uint p < 2 ^ 32"
    using uint_bounded [of p] by simp
  have "uint p < 2 ^ 63"
    using lt by simp
  moreover have "- (2 ^ 63) \<le> uint p"
  proof -
    have "(0::int) \<le> uint p" by simp
    moreover have "- (2 ^ 63) \<le> (0::int)" by simp
    ultimately show ?thesis by (rule order_trans [rotated])
  qed
  ultimately have "signed_take_bit 63 (uint p) = uint p"
    by (simp add: signed_take_bit_int_eq_self)
  then show ?thesis
    by (simp add: intOfUint32_def sint_uint up)
qed

lemma Itoa_intOfUint32: "Itoa (intOfUint32 p) = decimal (unat p)"
  by (simp add: Itoa_def intOfUint32_eq)

lemma index_bound: "unat (v AND (31 :: byte)) < 32"
proof -
  have "v AND 31 \<le> (31 :: byte)"
    by (rule word_and_le1)
  then have "unat (v AND 31) \<le> unat (31 :: byte)"
    by (simp add: word_le_nat_alt)
  then show ?thesis by simp
qed

lemma encodeChars_subset:
  assumes "length enc = 32"
  shows "set (encodeChars enc b) \<subseteq> set enc"
  using assms index_bound by (auto simp: encodeChars_def)

lemma EncodeToString_subset:
  "length enc = 32 \<Longrightarrow> set (EncodeToString enc src) \<subseteq> set enc"
proof (induction enc src rule: EncodeToString.induct)
  case (1 enc s0 s1 s2 s3 s4 src)
  then show ?case using encodeChars_subset [of enc] by simp
qed (simp_all add: encodeChars_subset)

lemma b32encoder_alphabet: "set (b32encoder src) \<subseteq> set b32alphabet"
  unfolding b32encoder_def by (rule EncodeToString_subset) (simp add: b32alphabet_def)

lemma b32encoder_digest_length: "length (b32encoder (take 16 (digestBytes d))) = 26"
  by (simp add: b32encoder_def digestBytes_def upt_rec take_map encodeChars_def encodeQuantum_def)

lemma decimal_nonempty: "decimal n \<noteq> []"
  by (subst decimal.simps) simp

lemma decimal_examples: "decimal 0 = ''0''" "decimal 1 = ''1''" "decimal 7 = ''7''" "decimal 443 = ''443''"
  by (simp_all add: decimal.simps)

text \<open>
  C6. \<^verbatim>\<open>endpointURLs\<close> is a function of its arguments (the hash function and the base
  domain among them), and its first hostname is the first 16 bytes of the SHA-256 digest
  of the serialized key, a zero byte and the decimal digits of the port, encoded with the
  alphabet \<open>abcdefghijklmnopqrstuvwxyz234567\<close> without padding, then a dot and the base
  domain; the encoding has exactly 26 characters, all of them from that alphabet.
\<close>

theorem endpointURLs_primary:
  "take 1 (endpointURLs sha256 domain user key port gh gl) =
     [b32encoder (take 16 (digestBytes
        (sha256 (key @ [0] @ bytesOfString (decimal (unat port)))))) @ ''.'' @ domain]
   \<and> b32encoder = EncodeToString ''abcdefghijklmnopqrstuvwxyz234567''
   \<and> length (b32encoder (take 16 (digestBytes
        (sha256 (key @ [0] @ bytesOfString (decimal (unat port))))))) = 26
   \<and> set (b32encoder (take 16 (digestBytes
        (sha256 (key @ [0] @ bytesOfString (decimal (unat port)))))))
       \<subseteq> set ''abcdefghijklmnopqrstuvwxyz234567''"
proof -
  have a: "take 1 (endpointURLs sha256 domain user key port gh gl) =
     [b32encoder (take 16 (digestBytes
        (sha256 (key @ [0] @ bytesOfString (decimal (unat port)))))) @ ''.'' @ domain]"
    by (simp add: endpointURLs_def Let_def Itoa_intOfUint32)
  have b: "b32encoder = EncodeToString ''abcdefghijklmnopqrstuvwxyz234567''"
    by (rule ext) (simp add: b32encoder_def b32alphabet_def)
  have c: "set (b32encoder src) \<subseteq> set ''abcdefghijklmnopqrstuvwxyz234567''" for src
    using b32encoder_alphabet [of src] unfolding b32alphabet_def .
  show ?thesis
    apply (intro conjI)
       apply (rule a)
      apply (rule b)
     apply (rule b32encoder_digest_length)
    apply (rule c)
    done
qed

lemma primary_not_vanity:
  "b32encoder src @ ''.'' @ domain \<noteq> user @ ''--1.gh.'' @ domain"
proof
  assume "b32encoder src @ ''.'' @ domain = user @ ''--1.gh.'' @ domain"
  then have "(b32encoder src @ ''.'') @ domain = (user @ ''--1.gh.'') @ domain"
    by simp
  then have "b32encoder src @ ''.'' = (user @ ''--1.gh'') @ ''.''"
    by (simp only: append_same_eq append_assoc) simp
  then have "b32encoder src = user @ ''--1.gh''"
    by (simp only: append_same_eq)
  then have "CHR ''-'' \<in> set (b32encoder src)"
    by simp
  then have "CHR ''-'' \<in> set b32alphabet"
    using b32encoder_alphabet by blast
  then show False
    by (simp add: b32alphabet_def)
qed

text \<open>
  C7. After the primary name come the vanity names, in this order: with the site-A flag
  (GitHub, label \<open>gh\<close>), \<open>user.gh.domain\<close> when the port is 1 and
  \<open>user--port.gh.domain\<close> for every other port; with the site-B flag (GitLab, label
  \<open>gl\<close>), \<open>user-port.gl.domain\<close> for every port; nothing for a flag that is false.
  For port 1 the name \<open>user--1.gh.domain\<close> is not in the result at all.
\<close>

theorem endpointURLs_vanity:
  "drop 1 (endpointURLs sha256 domain user key port gh gl) =
     (if gh then [if port = 1 then user @ ''.gh.'' @ domain
                  else user @ ''--'' @ decimal (unat port) @ ''.gh.'' @ domain]
      else []) @
     (if gl then [user @ ''-'' @ decimal (unat port) @ ''.gl.'' @ domain] else [])
   \<and> user @ ''--1.gh.'' @ domain \<notin> set (endpointURLs sha256 domain user key 1 gh gl)"
proof -
  have a: "drop 1 (endpointURLs sha256 domain user key port gh gl) =
     (if gh then [if port = 1 then user @ ''.gh.'' @ domain
                  else user @ ''--'' @ decimal (unat port) @ ''.gh.'' @ domain]
      else []) @
     (if gl then [user @ ''-'' @ decimal (unat port) @ ''.gl.'' @ domain] else [])"
    by (simp add: endpointURLs_def Let_def fmtD_def)
  have b: "user @ ''--1.gh.'' @ domain \<notin> set (endpointURLs sha256 domain user key 1 gh gl)"
    using primary_not_vanity [of _ domain user, symmetric]
    by (simp add: endpointURLs_def Let_def fmtD_def)
  show ?thesis by (rule conjI [OF a b])
qed


section \<open>Identity verification\<close>

lemma matchLines_iff:
  "matchLines lines key \<longleftrightarrow>
     (\<exists>line \<in> set lines. 2 \<le> length (SplitN line CHR '' '' 3) \<and> SplitN line CHR '' '' 3 ! 1 = key)"
  by (induction lines) (auto simp: Let_def)

lemma keyMatchesAccount_Body:
  assumes "http (''https://'' @ domain @ ''/'' @ user @ ''.keys'') = Body body"
  shows "keyMatchesAccount http domain user key =
           Inr (\<exists>line \<in> set (Split body (CHR 0x0A)).
                  2 \<le> length (SplitN line CHR '' '' 3) \<and> SplitN line CHR '' '' 3 ! 1 = key)"
  using assms by (simp add: keyMatchesAccount_def matchLines_iff)

lemma keyMatchesAccount_example:
  "keyMatchesAccount
     (\<lambda>url. Body (''ssh-rsa AAAA one'' @ [CHR 0x0A] @ ''ssh-ed25519 BBBB two three'' @ [CHR 0x0A]))
     ''github.com'' ''alice'' ''BBBB'' = Inr True"
  by (simp add: keyMatchesAccount_def numeral_3_eq_3 Let_def)

text \<open>
  C3. A failed request (\<^verbatim>\<open>http.DefaultClient.Do\<close> returns an error and a nil response, as
  on a DNS failure, a refused connection or the 5-second deadline) does not make
  \<^verbatim>\<open>keyMatchesAccount\<close> return false: it dereferences the nil response and panics.
\<close>

theorem keyMatchesAccount_network_error_panics:
  "keyMatchesAccount (\<lambda>url. DoError) ''github.com'' ''alice'' ''AAAA'' = Inl NilDereference"
  by (simp add: keyMatchesAccount_def)

section \<open>Insert, remove and cancel\<close>

text \<open>
  C2. With the target present in its bucket and the TunnelRef recorded at insertion in
  the owner's set, \<^verbatim>\<open>removeEndpointTarget\<close> removes the target from the bucket (and the
  empty bucket from the index), but the TunnelRef stays in the owner's \<^verbatim>\<open>TunnelRefs\<close>:
  the key passed to \<^verbatim>\<open>delete\<close> is the address of a new object (address 1 below), not the
  one stored (address 0).
\<close>

theorem removeEndpointTarget_keeps_TunnelRef:
  "insertEndpointTarget ''h'' 0 oneTarget =
     Inr \<lparr>conns = [1 \<mapsto> \<lparr>connKeyID = ''K'', Sessions = {1}, TunnelRefs = {0}, lastPort = 0\<rparr>],
          endpoints = [''h'' \<mapsto> {0}],
          targetHeap = [exampleTarget],
          tunnelRefHeap = [\<lparr>Endpoint = ''h'', Target = 0\<rparr>],
          trace = []\<rparr>
   \<and> insertThenRemove ''h'' 0 oneTarget =
     Inr \<lparr>conns = [1 \<mapsto> \<lparr>connKeyID = ''K'', Sessions = {1}, TunnelRefs = {0}, lastPort = 0\<rparr>],
          endpoints = Map.empty,
          targetHeap = [exampleTarget],
          tunnelRefHeap = [\<lparr>Endpoint = ''h'', Target = 0\<rparr>, \<lparr>Endpoint = ''h'', Target = 0\<rparr>],
          trace = []\<rparr>"
  by (simp add: insertThenRemove_def insertEndpointTarget_def removeEndpointTarget_def
      oneTarget_def newTarget_def newTunnelRef_def startSession_def newServer_def
      newConnection_def derefTarget_def exampleTarget_def)

text \<open>
  C1. After \<^verbatim>\<open>tcpip-forward\<close> for port 7 and then \<^verbatim>\<open>cancel-tcpip-forward\<close> for port 7 the
  hostname derived from the key and port 7 is still in the Endpoint index, with the
  target of the forward (address 0): the cancel removes a new target object (address 1)
  that was never inserted.
\<close>

theorem cancel_after_forward_keeps_endpoint:
  "map_option (\<lambda>s. (endpoints s, targetHeap s))
     (run sha256 domain
        [StartSession ''K'' 1 1,
         TcpipForward (exampleClient key) True forward7,
         CancelTcpipForward (exampleClient key) True forward7] newServer) =
   Some ([b32encoder (take 16 (digestBytes (sha256 (key @ [0] @ bytesOfString ''7'')))) @ ''.'' @ domain
            \<mapsto> {0}],
         [exampleTarget, exampleTarget])"
  by (simp add: returned_def tcpipForward_def cancelTcpipForward_def endpointURLs_def Let_def
      Itoa_intOfUint32 decimal.simps exampleClient_def forward7_def emit_def
      insertEndpointTarget_def removeEndpointTarget_def
      newTarget_def newTunnelRef_def startSession_def newServer_def
      newConnection_def derefTarget_def exampleTarget_def)


section \<open>Well-formed registry states\<close>

lemma derefTarget_append:
  "derefTarget s t = Some tv \<Longrightarrow> targetHeap s' = targetHeap s @ xs \<Longrightarrow> derefTarget s' t = Some tv"
  by (auto simp: derefTarget_def nth_append split: if_splits)

lemma derefTunnelRef_append:
  "derefTunnelRef s r = Some rv \<Longrightarrow> tunnelRefHeap s' = tunnelRefHeap s @ ys
     \<Longrightarrow> derefTunnelRef s' r = Some rv"
  by (auto simp: derefTunnelRef_def nth_append split: if_splits)

lemma bucket_empty_iff: "noEmptyBuckets s \<Longrightarrow> (bucket s e = {}) = (endpoints s e = None)"
  by (auto simp: noEmptyBuckets_def bucket_def split: option.splits)

lemma targetsHaveRefs_frame:
  assumes "targetsHaveRefs s"
    and "\<And>e. bucket s' e \<subseteq> bucket s e"
    and "targetHeap s' = targetHeap s @ xs"
    and "tunnelRefHeap s' = tunnelRefHeap s @ ys"
    and "\<And>conn c. conns s conn = Some c \<Longrightarrow> \<exists>c'. conns s' conn = Some c' \<and> TunnelRefs c' = TunnelRefs c"
  shows "targetsHaveRefs s'"
  unfolding targetsHaveRefs_def
proof (intro allI impI)
  fix e t
  assume "t \<in> bucket s' e"
  then have "t \<in> bucket s e"
    using assms(2) by blast
  then obtain tv c r where h: "derefTarget s t = Some tv" "conns s (Remote tv) = Some c"
      "r \<in> TunnelRefs c" "derefTunnelRef s r = Some \<lparr>Endpoint = e, Target = t\<rparr>"
    using assms(1) unfolding targetsHaveRefs_def by blast
  obtain c' where c': "conns s' (Remote tv) = Some c'" "TunnelRefs c' = TunnelRefs c"
    using assms(5) [OF h(2)] by blast
  have "derefTarget s' t = Some tv"
    using h(1) assms(3) by (rule derefTarget_append)
  moreover have "derefTunnelRef s' r = Some \<lparr>Endpoint = e, Target = t\<rparr>"
    using h(4) assms(4) by (rule derefTunnelRef_append)
  ultimately show "\<exists>tv c r. derefTarget s' t = Some tv \<and> conns s' (Remote tv) = Some c \<and>
      r \<in> TunnelRefs c \<and> derefTunnelRef s' r = Some \<lparr>Endpoint = e, Target = t\<rparr>"
    using c' h(3) by auto
qed

lemma refsWellFormed_frame:
  assumes "refsWellFormed s"
    and "targetHeap s' = targetHeap s @ xs"
    and "tunnelRefHeap s' = tunnelRefHeap s @ ys"
    and "\<And>conn c' r. conns s' conn = Some c' \<Longrightarrow> r \<in> TunnelRefs c'
           \<Longrightarrow> \<exists>c. conns s conn = Some c \<and> r \<in> TunnelRefs c"
  shows "refsWellFormed s'"
  unfolding refsWellFormed_def
proof (intro allI impI)
  fix conn c' r
  assume "conns s' conn = Some c'" "r \<in> TunnelRefs c'"
  then obtain c where c: "conns s conn = Some c" "r \<in> TunnelRefs c"
    using assms(4) by blast
  then obtain rv tv where h: "derefTunnelRef s r = Some rv" "derefTarget s (Target rv) = Some tv"
      "Remote tv = conn"
    using assms(1) unfolding refsWellFormed_def by blast
  have "derefTunnelRef s' r = Some rv"
    using h(1) assms(3) by (rule derefTunnelRef_append)
  moreover have "derefTarget s' (Target rv) = Some tv"
    using h(2) assms(2) by (rule derefTarget_append)
  ultimately show "\<exists>rv tv. derefTunnelRef s' r = Some rv \<and> derefTarget s' (Target rv) = Some tv \<and>
      Remote tv = conn"
    using h(3) by blast
qed

lemma fresh_tunnelRef:
  assumes "refsWellFormed s" "conns s conn = Some c"
  shows "length (tunnelRefHeap s) \<notin> TunnelRefs c"
proof
  assume "length (tunnelRefHeap s) \<in> TunnelRefs c"
  then obtain rv where "derefTunnelRef s (length (tunnelRefHeap s)) = Some rv"
    using assms unfolding refsWellFormed_def by blast
  then show False
    by (simp add: derefTunnelRef_def)
qed

text \<open>What \<^verbatim>\<open>removeEndpointTarget\<close> does when the new TunnelRef address is not in the set.\<close>

lemma removeEndpointTarget_result:
  assumes "derefTarget s t = Some tv" "conns s (Remote tv) = Some c"
    and "length (tunnelRefHeap s) \<notin> TunnelRefs c"
  shows "removeEndpointTarget e t s =
     Inr (case endpoints s e of
            None \<Rightarrow> s
          | Some m \<Rightarrow>
              s\<lparr>endpoints := (if m - {t} = {} then (endpoints s)(e := None)
                               else (endpoints s)(e \<mapsto> m - {t})),
                tunnelRefHeap := tunnelRefHeap s @ [\<lparr>Endpoint = e, Target = t\<rparr>]\<rparr>)"
proof (cases "endpoints s e")
  case None
  then show ?thesis using assms by (simp add: removeEndpointTarget_def)
next
  case (Some m)
  have upd: "(conns s)(Remote tv \<mapsto> c\<lparr>TunnelRefs := TunnelRefs c - {length (tunnelRefHeap s)}\<rparr>) = conns s"
    using assms(2,3) by (simp add: map_upd_triv)
  show ?thesis
    using Some assms(1,2) upd
    by (simp add: removeEndpointTarget_def Let_def newTunnelRef_def)
qed

lemma removeEndpointTarget_fields:
  assumes "derefTarget s t = Some tv" "conns s (Remote tv) = Some c"
    and "length (tunnelRefHeap s) \<notin> TunnelRefs c"
  shows "\<exists>s'. removeEndpointTarget e t s = Inr s' \<and> conns s' = conns s
           \<and> targetHeap s' = targetHeap s \<and> trace s' = trace s
           \<and> (\<exists>ys. tunnelRefHeap s' = tunnelRefHeap s @ ys)
           \<and> (\<forall>e'. bucket s' e' = (if e' = e then bucket s e - {t} else bucket s e'))
           \<and> (noEmptyBuckets s \<longrightarrow> noEmptyBuckets s')"
  unfolding removeEndpointTarget_result [OF assms]
  by (cases "endpoints s e") (auto simp: bucket_def noEmptyBuckets_def)

lemma removeEndpointTarget_Inr:
  assumes "removeEndpointTarget e t s = Inr s'"
  shows "\<exists>tv. derefTarget s t = Some tv \<and>
           (endpoints s e = None \<and> s' = s \<or> (\<exists>c. conns s (Remote tv) = Some c))"
  using assms
  by (auto simp: removeEndpointTarget_def Let_def split: option.splits if_splits)

lemma removeEndpointTarget_wellFormed:
  assumes "wellFormed s" "removeEndpointTarget e t s = Inr s'"
  shows "wellFormed s' \<and> conns s' = conns s \<and> targetHeap s' = targetHeap s
       \<and> (\<exists>ys. tunnelRefHeap s' = tunnelRefHeap s @ ys)
       \<and> (\<forall>e'. bucket s' e' = (if e' = e then bucket s e - {t} else bucket s e'))"
proof -
  obtain tv where tv: "derefTarget s t = Some tv"
    and alt: "endpoints s e = None \<and> s' = s \<or> (\<exists>c. conns s (Remote tv) = Some c)"
    using removeEndpointTarget_Inr [OF assms(2)] by blast
  show ?thesis
  proof (cases "endpoints s e = None \<and> s' = s")
    case True
    then show ?thesis using assms(1) by (auto simp: bucket_def)
  next
    case False
    then obtain c where c: "conns s (Remote tv) = Some c"
      using alt by blast
    have rwf: "refsWellFormed s" and thr: "targetsHaveRefs s" and neb: "noEmptyBuckets s"
      using assms(1) by (simp_all add: wellFormed_def)
    have fresh: "length (tunnelRefHeap s) \<notin> TunnelRefs c"
      using rwf c by (rule fresh_tunnelRef)
    obtain s2 where s2: "removeEndpointTarget e t s = Inr s2" "conns s2 = conns s"
        "targetHeap s2 = targetHeap s"
        "\<exists>ys. tunnelRefHeap s2 = tunnelRefHeap s @ ys"
        "\<forall>e'. bucket s2 e' = (if e' = e then bucket s e - {t} else bucket s e')"
        "noEmptyBuckets s \<longrightarrow> noEmptyBuckets s2"
      using removeEndpointTarget_fields [OF tv c fresh, of e] by blast
    have eq: "s2 = s'"
      using s2(1) assms(2) by simp
    obtain ys where ys: "tunnelRefHeap s2 = tunnelRefHeap s @ ys"
      using s2(4) by blast
    have th: "targetHeap s2 = targetHeap s @ []"
      using s2(3) by simp
    have "targetsHaveRefs s2"
      using thr _ th ys
    proof (rule targetsHaveRefs_frame)
      show "bucket s2 e' \<subseteq> bucket s e'" for e'
        using s2(5) by auto
      show "\<exists>c'. conns s2 conn = Some c' \<and> TunnelRefs c' = TunnelRefs c" if "conns s conn = Some c" for conn c
        using that s2(2) by simp
    qed
    moreover have "refsWellFormed s2"
      using rwf th ys
    proof (rule refsWellFormed_frame)
      show "\<exists>c. conns s conn = Some c \<and> r \<in> TunnelRefs c"
        if "conns s2 conn = Some c'" "r \<in> TunnelRefs c'" for conn c' r
        using that s2(2) by simp
    qed
    ultimately have "wellFormed s2"
      using s2(6) neb by (simp add: wellFormed_def)
    then show ?thesis
      using s2 eq by blast
  qed
qed

lemma insertEndpointTarget_result:
  assumes "derefTarget s t = Some tv" "conns s (Remote tv) = Some c"
  shows "insertEndpointTarget e t s =
     Inr (s\<lparr>endpoints := (endpoints s)(e \<mapsto> insert t (bucket s e)),
            tunnelRefHeap := tunnelRefHeap s @ [\<lparr>Endpoint = e, Target = t\<rparr>],
            conns := (conns s)(Remote tv \<mapsto>
                        c\<lparr>TunnelRefs := insert (length (tunnelRefHeap s)) (TunnelRefs c)\<rparr>)\<rparr>)"
  using assms
  by (cases "endpoints s e") (simp_all add: insertEndpointTarget_def Let_def newTunnelRef_def bucket_def)

lemma insertEndpointTarget_Inr:
  assumes "insertEndpointTarget e t s = Inr s'"
  shows "\<exists>tv c. derefTarget s t = Some tv \<and> conns s (Remote tv) = Some c"
  using assms
  by (auto simp: insertEndpointTarget_def Let_def split: option.splits if_splits)

lemma insertEndpointTarget_wellFormed:
  assumes "wellFormed s" "insertEndpointTarget e t s = Inr s'"
  shows "wellFormed s'"
proof -
  obtain tv c where tv: "derefTarget s t = Some tv" and c: "conns s (Remote tv) = Some c"
    using insertEndpointTarget_Inr [OF assms(2)] by blast
  have rwf: "refsWellFormed s" and thr: "targetsHaveRefs s" and neb: "noEmptyBuckets s"
    using assms(1) by (simp_all add: wellFormed_def)
  let ?r = "length (tunnelRefHeap s)"
  have s': "s' = s\<lparr>endpoints := (endpoints s)(e \<mapsto> insert t (bucket s e)),
            tunnelRefHeap := tunnelRefHeap s @ [\<lparr>Endpoint = e, Target = t\<rparr>],
            conns := (conns s)(Remote tv \<mapsto> c\<lparr>TunnelRefs := insert ?r (TunnelRefs c)\<rparr>)\<rparr>"
    using insertEndpointTarget_result [OF tv c, of e] assms(2) by simp
  have heap: "tunnelRefHeap s' = tunnelRefHeap s @ [\<lparr>Endpoint = e, Target = t\<rparr>]"
    and theap: "targetHeap s' = targetHeap s @ []"
    and bk: "\<And>e'. bucket s' e' = (if e' = e then insert t (bucket s e) else bucket s e')"
    and cn: "\<And>conn. conns s' conn = (if conn = Remote tv
               then Some (c\<lparr>TunnelRefs := insert ?r (TunnelRefs c)\<rparr>) else conns s conn)"
    by (simp_all add: s' bucket_def)
  have newref: "derefTunnelRef s' ?r = Some \<lparr>Endpoint = e, Target = t\<rparr>"
    by (simp add: derefTunnelRef_def heap)
  have tv': "derefTarget s' t = Some tv"
    using tv theap by (rule derefTarget_append)
  have 1: "noEmptyBuckets s'"
    using neb by (simp add: noEmptyBuckets_def s')
  have 2: "targetsHaveRefs s'"
    unfolding targetsHaveRefs_def
  proof (intro allI impI)
    fix e' t'
    assume in': "t' \<in> bucket s' e'"
    show "\<exists>tv c r. derefTarget s' t' = Some tv \<and> conns s' (Remote tv) = Some c \<and>
        r \<in> TunnelRefs c \<and> derefTunnelRef s' r = Some \<lparr>Endpoint = e', Target = t'\<rparr>"
    proof (cases "e' = e \<and> t' = t")
      case True
      then show ?thesis using tv' newref cn by auto
    next
      case False
      then have "t' \<in> bucket s e'"
        using in' bk by (auto split: if_splits)
      then obtain tv2 c2 r2 where h: "derefTarget s t' = Some tv2" "conns s (Remote tv2) = Some c2"
          "r2 \<in> TunnelRefs c2" "derefTunnelRef s r2 = Some \<lparr>Endpoint = e', Target = t'\<rparr>"
        using thr unfolding targetsHaveRefs_def by blast
      have a: "derefTarget s' t' = Some tv2"
        using h(1) theap by (rule derefTarget_append)
      have b: "derefTunnelRef s' r2 = Some \<lparr>Endpoint = e', Target = t'\<rparr>"
        using h(4) heap by (rule derefTunnelRef_append)
      have "\<exists>c3. conns s' (Remote tv2) = Some c3 \<and> r2 \<in> TunnelRefs c3"
        using h(2,3) c cn by auto
      then show ?thesis using a b by blast
    qed
  qed
  have 3: "refsWellFormed s'"
    unfolding refsWellFormed_def
  proof (intro allI impI)
    fix conn c' r
    assume h: "conns s' conn = Some c'" "r \<in> TunnelRefs c'"
    show "\<exists>rv tv. derefTunnelRef s' r = Some rv \<and> derefTarget s' (Target rv) = Some tv \<and>
        Remote tv = conn"
    proof (cases "conn = Remote tv \<and> r = ?r")
      case True
      then show ?thesis using newref tv' by auto
    next
      case False
      then have "\<exists>c0. conns s conn = Some c0 \<and> r \<in> TunnelRefs c0"
        using h cn c by (auto split: if_splits)
      then obtain rv tv3 where k: "derefTunnelRef s r = Some rv" "derefTarget s (Target rv) = Some tv3"
          "Remote tv3 = conn"
        using rwf unfolding refsWellFormed_def by blast
      have "derefTunnelRef s' r = Some rv"
        using k(1) heap by (rule derefTunnelRef_append)
      moreover have "derefTarget s' (Target rv) = Some tv3"
        using k(2) theap by (rule derefTarget_append)
      ultimately show ?thesis using k(3) by blast
    qed
  qed
  show ?thesis using 1 2 3 by (simp add: wellFormed_def)
qed

lemma wellFormed_frame:
  assumes "wellFormed s"
    and "endpoints s' = endpoints s"
    and "targetHeap s' = targetHeap s @ xs"
    and "tunnelRefHeap s' = tunnelRefHeap s @ ys"
    and "\<And>conn. map_option TunnelRefs (conns s' conn) = map_option TunnelRefs (conns s conn)
           \<or> conns s conn = None \<and> map_option TunnelRefs (conns s' conn) = Some {}"
  shows "wellFormed s'"
proof -
  have rwf: "refsWellFormed s" and thr: "targetsHaveRefs s" and neb: "noEmptyBuckets s"
    using assms(1) by (simp_all add: wellFormed_def)
  have "noEmptyBuckets s'"
    using neb assms(2) by (simp add: noEmptyBuckets_def)
  moreover have "targetsHaveRefs s'"
    using thr _ assms(3,4)
  proof (rule targetsHaveRefs_frame)
    show "bucket s' e \<subseteq> bucket s e" for e
      using assms(2) by (simp add: bucket_def)
    show "\<exists>c'. conns s' conn = Some c' \<and> TunnelRefs c' = TunnelRefs c"
      if "conns s conn = Some c" for conn c
      using that assms(5) [of conn] by auto
  qed
  moreover have "refsWellFormed s'"
    using rwf assms(3,4)
  proof (rule refsWellFormed_frame)
    show "\<exists>c. conns s conn = Some c \<and> r \<in> TunnelRefs c"
      if "conns s' conn = Some c'" "r \<in> TunnelRefs c'" for conn c' r
      using that assms(5) [of conn] by (cases "conns s conn") auto
  qed
  ultimately show ?thesis by (simp add: wellFormed_def)
qed

lemma newServer_wellFormed: "wellFormed newServer"
  by (simp add: wellFormed_def noEmptyBuckets_def targetsHaveRefs_def refsWellFormed_def
      newServer_def bucket_def)

lemma emit_wellFormed:
  assumes "wellFormed s"
  shows "wellFormed (emit es s)"
  using assms
  by (rule wellFormed_frame [where xs = "[]" and ys = "[]"]) (simp_all add: emit_def)

lemma startSession_wellFormed:
  assumes "wellFormed s"
  shows "wellFormed (startSession keyID conn ch s)"
  using assms
  by (rule wellFormed_frame [where xs = "[]" and ys = "[]"])
    (auto simp: startSession_def newConnection_def split: option.splits)

lemma endSession_wellFormed:
  assumes "wellFormed s"
  shows "wellFormed (endSession conn ch s)"
  using assms
  by (rule wellFormed_frame [where xs = "[]" and ys = "[]"])
    (auto simp: endSession_def emit_def Let_def split: option.splits)

lemma newPort_wellFormed:
  assumes "wellFormed s" "newPort conn s = Inr (p, s')"
  shows "wellFormed s'"
proof -
  obtain c where c: "conns s conn = Some c"
    and s': "s' = s\<lparr>conns := (conns s)(conn \<mapsto> c\<lparr>lastPort := lastPort c + 1\<rparr>)\<rparr>"
    using assms(2) by (auto simp: newPort_def Let_def split: option.splits)
  show ?thesis
    using assms(1)
  proof (rule wellFormed_frame [where xs = "[]" and ys = "[]"])
    show "map_option TunnelRefs (conns s' conna) = map_option TunnelRefs (conns s conna)
           \<or> conns s conna = None \<and> map_option TunnelRefs (conns s' conna) = Some {}" for conna
      using c by (cases "conna = conn") (simp_all add: s')
  qed (simp_all add: s')
qed

lemma newTarget_wellFormed:
  assumes "wellFormed s"
  shows "wellFormed (snd (newTarget tv s))"
  using assms
  by (rule wellFormed_frame [where xs = "[tv]" and ys = "[]"]) (simp_all add: newTarget_def)

lemma removeTunnelRefs_wellFormed:
  assumes "wellFormed s" "conns s conn = Some c" "set order \<subseteq> TunnelRefs c"
  shows "\<exists>s'. removeTunnelRefs order s = Inr s' \<and> wellFormed s' \<and> conns s' = conns s
           \<and> targetHeap s' = targetHeap s
           \<and> (\<forall>e. bucket s' e = bucket s e -
                  {t. \<exists>r \<in> set order. derefTunnelRef s r = Some \<lparr>Endpoint = e, Target = t\<rparr>})"
  using assms
proof (induction order arbitrary: s)
  case Nil
  then show ?case by simp
next
  case (Cons er ers)
  have rwf: "refsWellFormed s"
    using Cons.prems(1) by (simp add: wellFormed_def)
  have er: "er \<in> TunnelRefs c"
    using Cons.prems(3) by simp
  obtain rv tv where rv: "derefTunnelRef s er = Some rv" and tv: "derefTarget s (Target rv) = Some tv"
    and own: "Remote tv = conn"
    using rwf Cons.prems(2) er unfolding refsWellFormed_def by blast
  have c: "conns s (Remote tv) = Some c"
    using own Cons.prems(2) by simp
  have fresh: "length (tunnelRefHeap s) \<notin> TunnelRefs c"
    using rwf Cons.prems(2) by (rule fresh_tunnelRef)
  obtain s1 where s1: "removeEndpointTarget (Endpoint rv) (Target rv) s = Inr s1"
    using removeEndpointTarget_fields [OF tv c fresh] by blast
  have p1: "wellFormed s1" "conns s1 = conns s" "targetHeap s1 = targetHeap s"
      "\<exists>ys. tunnelRefHeap s1 = tunnelRefHeap s @ ys"
      "\<forall>e'. bucket s1 e' = (if e' = Endpoint rv then bucket s (Endpoint rv) - {Target rv}
                               else bucket s e')"
    using removeEndpointTarget_wellFormed [OF Cons.prems(1) s1] by simp_all
  obtain ys where ys: "tunnelRefHeap s1 = tunnelRefHeap s @ ys"
    using p1(4) by blast
  have same: "derefTunnelRef s1 r = derefTunnelRef s r" if rin: "r \<in> TunnelRefs c" for r
  proof -
    obtain rv' where "derefTunnelRef s r = Some rv'"
      using rwf Cons.prems(2) rin unfolding refsWellFormed_def by blast
    then show ?thesis
      using derefTunnelRef_append [OF _ ys] by simp
  qed
  have "conns s1 conn = Some c"
    using p1(2) Cons.prems(2) by simp
  moreover have "set ers \<subseteq> TunnelRefs c"
    using Cons.prems(3) by simp
  ultimately obtain s' where s': "removeTunnelRefs ers s1 = Inr s'" "wellFormed s'"
      "conns s' = conns s1" "targetHeap s' = targetHeap s1"
      "\<forall>e. bucket s' e = bucket s1 e -
          {t. \<exists>r \<in> set ers. derefTunnelRef s1 r = Some \<lparr>Endpoint = e, Target = t\<rparr>}"
    using Cons.IH [OF p1(1)] by blast
  have run: "removeTunnelRefs (er # ers) s = Inr s'"
    using rv s1 s'(1) by simp
  have rveq: "rv = \<lparr>Endpoint = e, Target = t\<rparr> \<longleftrightarrow> e = Endpoint rv \<and> t = Target rv" for e t
    by (cases rv) auto
  have bk: "bucket s' e = bucket s e -
      {t. \<exists>r \<in> set (er # ers). derefTunnelRef s r = Some \<lparr>Endpoint = e, Target = t\<rparr>}" for e
  proof -
    have "{t. \<exists>r \<in> set ers. derefTunnelRef s1 r = Some \<lparr>Endpoint = e, Target = t\<rparr>} =
          {t. \<exists>r \<in> set ers. derefTunnelRef s r = Some \<lparr>Endpoint = e, Target = t\<rparr>}"
    proof -
      have eqr: "derefTunnelRef s1 r = derefTunnelRef s r" if rin: "r \<in> set ers" for r
        using same rin \<open>set ers \<subseteq> TunnelRefs c\<close> by blast
      show ?thesis
        by (auto simp: eqr)
    qed
    then have "bucket s' e = bucket s1 e -
          {t. \<exists>r \<in> set ers. derefTunnelRef s r = Some \<lparr>Endpoint = e, Target = t\<rparr>}"
      using s'(5) by simp
    then show ?thesis
      using p1(5) rv rveq by auto
  qed
  show ?case
    using run s'(2,3,4) p1(2,3) bk by auto
qed

lemma closeConnection_wellFormed:
  assumes "wellFormed s" "\<forall>c. conns s conn = Some c \<longrightarrow> set order = TunnelRefs c"
  shows "\<exists>s'. closeConnection order conn s = Inr s' \<and> wellFormed s'
           \<and> conns s' = (conns s)(conn := None) \<and> targetHeap s' = targetHeap s
           \<and> (\<forall>e t. t \<in> bucket s' e \<longrightarrow>
                  (\<exists>tv. derefTarget s' t = Some tv \<and> Remote tv \<noteq> conn))"
proof (cases "conns s conn")
  case None
  have thr: "targetsHaveRefs s"
    using assms(1) by (simp add: wellFormed_def)
  have "\<exists>tv. derefTarget s t = Some tv \<and> Remote tv \<noteq> conn" if tin: "t \<in> bucket s e" for e t
  proof -
    obtain tv c where "derefTarget s t = Some tv" "conns s (Remote tv) = Some c"
      using thr tin unfolding targetsHaveRefs_def by blast
    then show ?thesis using None by auto
  qed
  moreover have "(conns s)(conn := None) = conns s"
    using None by (rule fun_upd_idem)
  ultimately show ?thesis
    using None assms(1) by (simp add: closeConnection_def)
next
  case (Some c)
  have thr: "targetsHaveRefs s"
    using assms(1) by (simp add: wellFormed_def)
  have ord: "set order = TunnelRefs c"
    using assms(2) Some by simp
  then have "set order \<subseteq> TunnelRefs c"
    by simp
  then obtain s1 where s1: "removeTunnelRefs order s = Inr s1" "wellFormed s1" "conns s1 = conns s"
      "targetHeap s1 = targetHeap s"
      "\<forall>e. bucket s1 e = bucket s e -
          {t. \<exists>r \<in> set order. derefTunnelRef s r = Some \<lparr>Endpoint = e, Target = t\<rparr>}"
    using removeTunnelRefs_wellFormed [OF assms(1) Some] by blast
  let ?s2 = "s1\<lparr>conns := (conns s1)(conn := None)\<rparr>"
  let ?s' = "emit [SpawnConnClose conn] ?s2"
  have res: "closeConnection order conn s = Inr ?s'"
    using Some s1(1) by (simp add: closeConnection_def)
  have others: "\<exists>tv. derefTarget s1 t = Some tv \<and> Remote tv \<noteq> conn" if tin: "t \<in> bucket s1 e" for e t
  proof -
    have a: "t \<in> bucket s e"
      and b: "\<not> (\<exists>r \<in> set order. derefTunnelRef s r = Some \<lparr>Endpoint = e, Target = t\<rparr>)"
      using tin s1(5) by auto
    obtain tv c2 r2 where h: "derefTarget s t = Some tv" "conns s (Remote tv) = Some c2"
        "r2 \<in> TunnelRefs c2" "derefTunnelRef s r2 = Some \<lparr>Endpoint = e, Target = t\<rparr>"
      using thr a unfolding targetsHaveRefs_def by blast
    have "Remote tv \<noteq> conn"
    proof
      assume "Remote tv = conn"
      then have "c2 = c" using h(2) Some by simp
      then have "r2 \<in> set order" using h(3) ord by simp
      then show False using b h(4) by blast
    qed
    moreover have "derefTarget s1 t = Some tv"
      using derefTarget_append [OF h(1), of s1 "[]"] s1(4) by simp
    ultimately show ?thesis by blast
  qed
  have wf1: "refsWellFormed s1" "targetsHaveRefs s1" "noEmptyBuckets s1"
    using s1(2) by (simp_all add: wellFormed_def)
  have bk2: "bucket ?s2 e = bucket s1 e" for e
    by (simp add: bucket_def)
  have "noEmptyBuckets ?s2"
    using wf1(3) by (simp add: noEmptyBuckets_def)
  moreover have "targetsHaveRefs ?s2"
    unfolding targetsHaveRefs_def
  proof (intro allI impI)
    fix e t
    assume "t \<in> bucket ?s2 e"
    then have tin: "t \<in> bucket s1 e"
      using bk2 by simp
    obtain tv c3 r3 where h: "derefTarget s1 t = Some tv" "conns s1 (Remote tv) = Some c3"
        "r3 \<in> TunnelRefs c3" "derefTunnelRef s1 r3 = Some \<lparr>Endpoint = e, Target = t\<rparr>"
      using wf1(2) tin unfolding targetsHaveRefs_def by blast
    have "Remote tv \<noteq> conn"
      using others [OF tin] h(1) by auto
    then have "conns ?s2 (Remote tv) = Some c3"
      using h(2) by simp
    moreover have "derefTarget ?s2 t = Some tv"
      using h(1) by (auto simp: derefTarget_def split: if_splits)
    moreover have "derefTunnelRef ?s2 r3 = Some \<lparr>Endpoint = e, Target = t\<rparr>"
      using h(4) by (auto simp: derefTunnelRef_def split: if_splits)
    ultimately show "\<exists>tv c r. derefTarget ?s2 t = Some tv \<and> conns ?s2 (Remote tv) = Some c \<and>
        r \<in> TunnelRefs c \<and> derefTunnelRef ?s2 r = Some \<lparr>Endpoint = e, Target = t\<rparr>"
      using h(3) by blast
  qed
  moreover have "refsWellFormed ?s2"
    using wf1(1)
  proof (rule refsWellFormed_frame [where xs = "[]" and ys = "[]"])
    show "\<exists>c. conns s1 conna = Some c \<and> r \<in> TunnelRefs c"
      if "conns ?s2 conna = Some c'" "r \<in> TunnelRefs c'" for conna c' r
      using that by (cases "conna = conn") simp_all
  qed simp_all
  ultimately have "wellFormed ?s2"
    by (simp add: wellFormed_def)
  then have wf': "wellFormed ?s'"
    by (rule emit_wellFormed)
  have c': "conns ?s' = (conns s)(conn := None)" and th': "targetHeap ?s' = targetHeap s"
    using s1(3,4) by (simp_all add: emit_def)
  have own': "\<exists>tv. derefTarget ?s' t = Some tv \<and> Remote tv \<noteq> conn" if tin: "t \<in> bucket ?s' e" for e t
  proof -
    have "t \<in> bucket s1 e"
      using tin by (simp add: bucket_def emit_def)
    then obtain tv where "derefTarget s1 t = Some tv" "Remote tv \<noteq> conn"
      using others by blast
    then show ?thesis
      by (auto simp: derefTarget_def emit_def split: if_splits)
  qed
  show ?thesis
    using res wf' c' th' own' by blast
qed

lemma insertTargets_wellFormed:
  "wellFormed s \<Longrightarrow> insertTargets eps tv s = Inr s' \<Longrightarrow> wellFormed s'"
proof (induction eps arbitrary: s)
  case Nil
  then show ?case by simp
next
  case (Cons endpoint rest)
  let ?s1 = "snd (newTarget tv s)"
  let ?t = "fst (newTarget tv s)"
  have wf1: "wellFormed ?s1"
    using Cons.prems(1) by (rule newTarget_wellFormed)
  obtain s2 where s2: "insertEndpointTarget endpoint ?t ?s1 = Inr s2" "insertTargets rest tv s2 = Inr s'"
    using Cons.prems(2) by (auto simp: Let_def case_prod_unfold split: sum.splits)
  have "wellFormed s2"
    using wf1 s2(1) by (rule insertEndpointTarget_wellFormed)
  then show ?case
    using s2(2) by (rule Cons.IH)
qed

lemma removeTargets_wellFormed:
  "wellFormed s \<Longrightarrow> removeTargets eps tv s = Inr s' \<Longrightarrow> wellFormed s'"
proof (induction eps arbitrary: s)
  case Nil
  then show ?case by simp
next
  case (Cons endpoint rest)
  let ?s1 = "snd (newTarget tv s)"
  let ?t = "fst (newTarget tv s)"
  have wf1: "wellFormed ?s1"
    using Cons.prems(1) by (rule newTarget_wellFormed)
  obtain s2 where s2: "removeEndpointTarget endpoint ?t ?s1 = Inr s2" "removeTargets rest tv s2 = Inr s'"
    using Cons.prems(2) by (auto simp: Let_def case_prod_unfold split: sum.splits)
  have "wellFormed s2"
    using removeEndpointTarget_wellFormed [OF wf1 s2(1)] by simp
  then show ?case
    using s2(2) by (rule Cons.IH)
qed

lemma tcpipForward_wellFormed:
  assumes "wellFormed s" "tcpipForward sha256 domain cl wantReply payload s = Inr s'"
  shows "wellFormed s'"
proof (cases payload)
  case None
  then show ?thesis
    using assms by (auto simp: tcpipForward_def emit_wellFormed split: if_splits)
next
  case (Some p)
  then show ?thesis
    using assms
    by (auto simp: tcpipForward_def Let_def split: sum.splits if_splits
        intro: emit_wellFormed insertTargets_wellFormed)
qed

lemma cancelTcpipForward_wellFormed:
  assumes "wellFormed s" "cancelTcpipForward sha256 domain cl wantReply payload s = Inr s'"
  shows "wellFormed s'"
proof (cases payload)
  case None
  then show ?thesis
    using assms by (auto simp: cancelTcpipForward_def emit_wellFormed split: if_splits)
next
  case (Some p)
  then show ?thesis
    using assms
    by (auto simp: cancelTcpipForward_def Let_def split: sum.splits if_splits
        intro: emit_wellFormed removeTargets_wellFormed)
qed

lemma returned_Some: "returned res = Some s \<longleftrightarrow> res = Inr s"
  by (cases res) (simp_all add: returned_def)

lemma exec_wellFormed:
  assumes "wellFormed s" "exec sha256 domain op s = Some s'"
  shows "wellFormed s'"
proof (cases op)
  case (StartSession keyID conn ch)
  then show ?thesis using assms by (auto intro: startSession_wellFormed)
next
  case (EndSession conn ch)
  then show ?thesis using assms by (auto intro: endSession_wellFormed)
next
  case (NewPort conn)
  then show ?thesis using assms by (auto split: sum.splits intro: newPort_wellFormed)
next
  case (NewTarget tv)
  then show ?thesis using assms by (auto intro: newTarget_wellFormed)
next
  case (InsertEndpointTarget e t)
  then show ?thesis using assms by (auto simp: returned_Some intro: insertEndpointTarget_wellFormed)
next
  case (RemoveEndpointTarget e t)
  then show ?thesis
    using assms removeEndpointTarget_wellFormed [of s e t s'] by (simp add: returned_Some)
next
  case (CloseConnection conn order)
  have "closeConnection order conn s = Inr s'"
    and "\<forall>c. conns s conn = Some c \<longrightarrow> set order = TunnelRefs c"
    using assms(2) CloseConnection
    by (auto simp: returned_Some rangeOrder_def split: option.splits if_splits)
  then show ?thesis
    using closeConnection_wellFormed [OF assms(1), of conn order] by auto
next
  case (TcpipForward cl wantReply payload)
  then show ?thesis using assms by (auto simp: returned_Some intro: tcpipForward_wellFormed)
next
  case (CancelTcpipForward cl wantReply payload)
  then show ?thesis using assms by (auto simp: returned_Some intro: cancelTcpipForward_wellFormed)
qed

lemma run_wellFormed_from:
  "wellFormed s \<Longrightarrow> run sha256 domain ops s = Some s' \<Longrightarrow> wellFormed s'"
proof (induction ops arbitrary: s)
  case Nil
  then show ?case by simp
next
  case (Cons op ops)
  then obtain s1 where s1: "exec sha256 domain op s = Some s1" "run sha256 domain ops s1 = Some s'"
    by (auto split: option.splits)
  have "wellFormed s1"
    using Cons.prems(1) s1(1) by (rule exec_wellFormed)
  then show ?case
    using s1(2) by (rule Cons.IH)
qed

lemma run_wellFormed: "run sha256 domain ops newServer = Some s \<Longrightarrow> wellFormed s"
  using newServer_wellFormed by (rule run_wellFormed_from)

lemma exampleState_run: "run (\<lambda>bs. 0) ''srv.us'' exampleOps newServer = Some exampleState"
  by (auto simp: exampleOps_def exampleState_def returned_def insertEndpointTarget_def
      newTarget_def newTunnelRef_def startSession_def newServer_def Let_def
      newConnection_def derefTarget_def exampleTarget_def otherTarget_def fun_eq_iff)

section \<open>Invariants of reachable states\<close>

text \<open>
  C5. In every state reached from the empty registry by any sequence of operations
  (insertEndpointTarget, removeEndpointTarget and closeConnection among them) no
  hostname maps to an empty target set: a key is present exactly when its set has an
  element.
\<close>

theorem endpoints_never_empty:
  assumes "run sha256 domain ops newServer = Some s"
  shows "endpoints s e \<noteq> Some {} \<and> (e \<in> dom (endpoints s)) = (bucket s e \<noteq> {})"
proof -
  have neb: "noEmptyBuckets s"
    using run_wellFormed [OF assms] by (simp add: wellFormed_def)
  then have "endpoints s e \<noteq> Some {}"
    by (simp add: noEmptyBuckets_def)
  moreover have "(e \<in> dom (endpoints s)) = (bucket s e \<noteq> {})"
    using bucket_empty_iff [OF neb, of e] by (auto simp: dom_def)
  ultimately show ?thesis by simp
qed

theorem endpoints_never_empty_witness:
  "run (\<lambda>bs. 0) ''srv.us'' (exampleOps @ [RemoveEndpointTarget ''g'' 0]) newServer \<noteq> None
   \<and> map_option (\<lambda>s. (endpoints s ''h'', endpoints s ''g''))
         (run (\<lambda>bs. 0) ''srv.us'' (exampleOps @ [RemoveEndpointTarget ''g'' 0]) newServer)
       = Some (Some {0, 1}, None)"
proof -
  obtain s where s: "run (\<lambda>bs. 0) ''srv.us'' (exampleOps @ [RemoveEndpointTarget ''g'' 0]) newServer = Some s"
    by (auto simp: exampleOps_def returned_def insertEndpointTarget_def removeEndpointTarget_def
      newTarget_def newTunnelRef_def startSession_def newServer_def Let_def
      newConnection_def derefTarget_def exampleTarget_def otherTarget_def)
  have g: "bucket s ''g'' = {}" and h: "bucket s ''h'' = {0, 1}"
    using s
    by (auto simp: exampleOps_def returned_def insertEndpointTarget_def removeEndpointTarget_def
      newTarget_def newTunnelRef_def startSession_def newServer_def Let_def bucket_def
      newConnection_def derefTarget_def exampleTarget_def otherTarget_def)
  show ?thesis
    using endpoints_never_empty [OF s, of "''g''"] endpoints_never_empty [OF s, of "''h''"] g h s
    by (auto simp: bucket_def dom_def split: option.splits)
qed

text \<open>
  C4. In every reachable state, \<^verbatim>\<open>closeConnection\<close> returns (its loop visiting the
  connection's TunnelRefs in any order), and afterwards the Connection index has no entry
  for the connection and no bucket of the Endpoint index holds a target owned by it. The
  record is deleted after the loop over the TunnelRefs.
\<close>

theorem closeConnection_removes_all:
  assumes "run sha256 domain ops newServer = Some s"
    and "\<forall>c. conns s conn = Some c \<longrightarrow> rangeOrder order (TunnelRefs c)"
  shows "\<exists>s'. closeConnection order conn s = Inr s' \<and> conns s' conn = None
           \<and> (\<forall>e t. t \<in> bucket s' e \<longrightarrow>
                  (\<exists>tv. derefTarget s' t = Some tv \<and> Remote tv \<noteq> conn))"
proof -
  have wf: "wellFormed s"
    using assms(1) by (rule run_wellFormed)
  have "\<forall>c. conns s conn = Some c \<longrightarrow> set order = TunnelRefs c"
    using assms(2) by (simp add: rangeOrder_def)
  then obtain s' where s': "closeConnection order conn s = Inr s'"
      "conns s' = (conns s)(conn := None)"
      "\<forall>e t. t \<in> bucket s' e \<longrightarrow> (\<exists>tv. derefTarget s' t = Some tv \<and> Remote tv \<noteq> conn)"
    using closeConnection_wellFormed [OF wf, of conn order] by blast
  have "conns s' conn = None"
    using s'(2) by simp
  then show ?thesis
    using s'(1,3) by blast
qed

theorem closeConnection_removes_all_witness:
  "run (\<lambda>bs. 0) ''srv.us'' exampleOps newServer = Some exampleState
   \<and> rangeOrder [2, 0] {0, 2}
   \<and> (\<exists>s'. closeConnection [2, 0] 1 exampleState = Inr s' \<and> conns s' 1 = None
          \<and> endpoints s' = [''h'' \<mapsto> {1}]
          \<and> (\<forall>e t. t \<in> bucket s' e \<longrightarrow>
                 (\<exists>tv. derefTarget s' t = Some tv \<and> Remote tv \<noteq> 1)))"
proof -
  have ro: "rangeOrder [2, 0] {0, 2}"
    by (auto simp: rangeOrder_def)
  have p: "\<forall>c. conns exampleState 1 = Some c \<longrightarrow> rangeOrder [2, 0] (TunnelRefs c)"
    using ro by (auto simp: exampleState_def)
  have e: "\<And>s'. closeConnection [2, 0] 1 exampleState = Inr s' \<Longrightarrow> endpoints s' = [''h'' \<mapsto> {1}]"
    by (auto simp: closeConnection_def exampleState_def derefTunnelRef_def derefTarget_def
        removeEndpointTarget_def newTunnelRef_def Let_def emit_def exampleTarget_def otherTarget_def
        fun_eq_iff)
  show ?thesis
    using closeConnection_removes_all [OF exampleState_run p] exampleState_run ro e
    by blast
qed

section \<open>Insert followed by remove\<close>

lemma insertEndpointTarget_fields:
  assumes "derefTarget s t = Some tv" "conns s (Remote tv) = Some c"
  shows "\<exists>s1 c1. insertEndpointTarget e t s = Inr s1
           \<and> endpoints s1 = (endpoints s)(e \<mapsto> insert t (bucket s e))
           \<and> derefTarget s1 t = Some tv \<and> conns s1 (Remote tv) = Some c1"
  unfolding insertEndpointTarget_result [OF assms]
  using assms(1) by (auto simp: derefTarget_def split: if_splits)

lemma removeEndpointTarget_endpoints:
  assumes "derefTarget s t = Some tv" "conns s (Remote tv) = Some c" "endpoints s e = Some m"
  shows "\<exists>s'. removeEndpointTarget e t s = Inr s'
           \<and> endpoints s' = (if m - {t} = {} then (endpoints s)(e := None)
                              else (endpoints s)(e \<mapsto> m - {t}))"
  using assms
  by (cases "m - {t} = {}") (simp_all add: removeEndpointTarget_def Let_def newTunnelRef_def)

text \<open>
  The part of the round trip that holds. In a registry state without empty buckets, for
  a target object whose owning connection has a record and which is not in the bucket of
  the hostname, \<^verbatim>\<open>insertEndpointTarget\<close> followed by \<^verbatim>\<open>removeEndpointTarget\<close> with the same
  hostname and target returns, and the Endpoint index alone is what it was before.
\<close>

lemma insert_then_remove_endpoints:
  assumes "noEmptyBuckets s"
    and "derefTarget s t = Some tv"
    and "conns s (Remote tv) = Some c"
    and "t \<notin> bucket s e"
  shows "\<exists>s'. insertThenRemove e t s = Inr s' \<and> endpoints s' = endpoints s"
proof -
  obtain s1 c1 where ins: "insertEndpointTarget e t s = Inr s1"
    and ep1: "endpoints s1 = (endpoints s)(e \<mapsto> insert t (bucket s e))"
    and tv1: "derefTarget s1 t = Some tv"
    and c1: "conns s1 (Remote tv) = Some c1"
    using insertEndpointTarget_fields [OF assms(2,3)] by blast
  have e1: "endpoints s1 e = Some (insert t (bucket s e))"
    using ep1 by simp
  obtain s' where rem: "removeEndpointTarget e t s1 = Inr s'"
    and ep: "endpoints s' = (if insert t (bucket s e) - {t} = {} then (endpoints s1)(e := None)
                            else (endpoints s1)(e \<mapsto> insert t (bucket s e) - {t}))"
    using removeEndpointTarget_endpoints [OF tv1 c1 e1] by blast
  have diff: "insert t (bucket s e) - {t} = bucket s e"
    using assms(4) by auto
  have "endpoints s' = endpoints s"
  proof (cases "endpoints s e")
    case None
    then have "bucket s e = {}"
      by (simp add: bucket_def)
    then show ?thesis
      using ep ep1 diff None by (auto simp: fun_eq_iff)
  next
    case (Some m)
    then have "bucket s e = m" "m \<noteq> {}"
      using assms(1) by (auto simp: bucket_def noEmptyBuckets_def)
    then show ?thesis
      using ep ep1 diff Some by (auto simp: fun_eq_iff)
  qed
  then show ?thesis
    using ins rem by (simp add: insertThenRemove_def)
qed

text \<open>
  C8. \<^verbatim>\<open>insertEndpointTarget\<close> followed by \<^verbatim>\<open>removeEndpointTarget\<close> with the same
  hostname and target does not restore the registry. In the second scenario, with target
  1 not in the bucket of \<open>g\<close>, the Endpoint index comes back to what it was, but the
  record of the owning connection 2 keeps the TunnelRef made by the insert (address 3):
  its \<^verbatim>\<open>TunnelRefs\<close> is \<open>{1, 3}\<close> where it was \<open>{1}\<close>, because the remove passes the
  address of yet another new object (address 4) to \<^verbatim>\<open>delete\<close>.
\<close>

theorem insert_then_remove_leaves_TunnelRef:
  "insertThenRemove ''g'' 1 exampleState =
     Inr (exampleState
           \<lparr>tunnelRefHeap := tunnelRefHeap exampleState @
              [\<lparr>Endpoint = ''g'', Target = 1\<rparr>, \<lparr>Endpoint = ''g'', Target = 1\<rparr>],
            conns := (conns exampleState)(2 \<mapsto>
              \<lparr>connKeyID = ''L'', Sessions = {2}, TunnelRefs = {1, 3}, lastPort = 0\<rparr>)\<rparr>)
   \<and> conns exampleState 2 =
       Some \<lparr>connKeyID = ''L'', Sessions = {2}, TunnelRefs = {1}, lastPort = 0\<rparr>
   \<and> 1 \<notin> bucket exampleState ''g''"
proof -
  have a: "insertThenRemove ''g'' 1 exampleState =
     Inr (exampleState
           \<lparr>tunnelRefHeap := tunnelRefHeap exampleState @
              [\<lparr>Endpoint = ''g'', Target = 1\<rparr>, \<lparr>Endpoint = ''g'', Target = 1\<rparr>],
            conns := (conns exampleState)(2 \<mapsto>
              \<lparr>connKeyID = ''L'', Sessions = {2}, TunnelRefs = {1, 3}, lastPort = 0\<rparr>)\<rparr>)"
    by (auto simp: insertThenRemove_def insertEndpointTarget_def removeEndpointTarget_def
        exampleState_def derefTarget_def newTunnelRef_def Let_def exampleTarget_def otherTarget_def
        fun_eq_iff)
  have b: "conns exampleState 2 =
       Some \<lparr>connKeyID = ''L'', Sessions = {2}, TunnelRefs = {1}, lastPort = 0\<rparr>"
    by (simp add: exampleState_def)
  have c: "1 \<notin> bucket exampleState ''g''"
    by (simp add: bucket_def exampleState_def)
  show ?thesis
    using a b c by simp
qed

end
